theory Spec2Isabelle
  imports Main "HOL-Library.Word"
begin

section \<open>The C shim \<^verbatim>\<open>Sources/CSQLite/shim.h\<close>\<close>

text \<open>
  The header wraps three variadic calls of the SQLite C API in ordinary functions and, when
  the system header lacks them, declares the snapshot API. Everything it calls lives in
  SQLite, outside the repository: the macros of \<^verbatim>\<open>sqlite3.h\<close> and the two variadic
  functions are therefore parameters of the model, and the state they act on is an
  arbitrary type \<open>'w\<close>.
\<close>

subsection \<open>Values and the interface of \<^verbatim>\<open>sqlite3.h\<close>\<close>

text \<open>A pointer is an address; the null pointer is address 0.\<close>

type_synonym ptr = nat

definition NULL :: ptr where
  "NULL = 0"

text \<open>
  An argument passed through the \<^verbatim>\<open>...\<close> of a variadic function, as the call site
  writes it: an \<^verbatim>\<open>int\<close>, an object pointer, or a function pointer of type
  \<^verbatim>\<open>errorLogCallback\<close> (\<open>'f\<close>, kept opaque: the shim never calls it).
\<close>

datatype 'f vararg = Int_arg int | Ptr_arg ptr | Fn_arg 'f

text \<open>The macros of \<^verbatim>\<open>sqlite3.h\<close> that the shim mentions.\<close>

record sqlite3_h =
  SQLITE_VERSION_NUMBER :: int
  SQLITE_OK :: int
  SQLITE_CONFIG_LOG :: int
  SQLITE_DBCONFIG_DQS_DML :: int
  SQLITE_DBCONFIG_DQS_DDL :: int
  SQLITE_ENABLE_SNAPSHOT :: bool  \<comment> \<open>whether the macro is defined\<close>

text \<open>
  The two variadic functions: each takes its fixed arguments, the list of variadic ones and
  the state of the library, and returns its \<^verbatim>\<open>int\<close> result code with the new state.
\<close>

record ('f, 'w) sqlite3_api =
  sqlite3_config :: "int \<Rightarrow> 'f vararg list \<Rightarrow> 'w \<Rightarrow> int \<times> 'w"
  sqlite3_db_config :: "ptr \<Rightarrow> int \<Rightarrow> 'f vararg list \<Rightarrow> 'w \<Rightarrow> int \<times> 'w"

subsection \<open>The three wrappers\<close>

text \<open>
  \<^verbatim>\<open>static inline void registerErrorLogCallback(errorLogCallback callback) {
    sqlite3_config(SQLITE_CONFIG_LOG, callback, 0); }\<close>
  The result code is dropped; the last argument is the \<^verbatim>\<open>int\<close> literal 0.
\<close>

definition registerErrorLogCallback ::
  "sqlite3_h \<Rightarrow> ('f, 'w) sqlite3_api \<Rightarrow> 'f \<Rightarrow> 'w \<Rightarrow> unit \<times> 'w" where
  "registerErrorLogCallback h L callback w =
     (let (_, w1) = sqlite3_config L (SQLITE_CONFIG_LOG h) [Fn_arg callback, Int_arg 0] w
      in ((), w1))"

text \<open>
  Under \<^verbatim>\<open>#if SQLITE_VERSION_NUMBER >= 3029000\<close> the two toggles call
  \<^verbatim>\<open>sqlite3_db_config\<close> twice, first for \<^verbatim>\<open>SQLITE_DBCONFIG_DQS_DDL\<close>, then for
  \<^verbatim>\<open>SQLITE_DBCONFIG_DQS_DML\<close>, each time with the value and \<^verbatim>\<open>(void * )0\<close>; under
  \<^verbatim>\<open>#else\<close> their bodies are empty.
\<close>

definition disableDoubleQuotedStringLiterals ::
  "sqlite3_h \<Rightarrow> ('f, 'w) sqlite3_api \<Rightarrow> ptr \<Rightarrow> 'w \<Rightarrow> unit \<times> 'w" where
  "disableDoubleQuotedStringLiterals h L db w =
     (if SQLITE_VERSION_NUMBER h \<ge> 3029000 then
        (let (_, w1) = sqlite3_db_config L db (SQLITE_DBCONFIG_DQS_DDL h) [Int_arg 0, Ptr_arg NULL] w;
             (_, w2) = sqlite3_db_config L db (SQLITE_DBCONFIG_DQS_DML h) [Int_arg 0, Ptr_arg NULL] w1
         in ((), w2))
      else ((), w))"

definition enableDoubleQuotedStringLiterals ::
  "sqlite3_h \<Rightarrow> ('f, 'w) sqlite3_api \<Rightarrow> ptr \<Rightarrow> 'w \<Rightarrow> unit \<times> 'w" where
  "enableDoubleQuotedStringLiterals h L db w =
     (if SQLITE_VERSION_NUMBER h \<ge> 3029000 then
        (let (_, w1) = sqlite3_db_config L db (SQLITE_DBCONFIG_DQS_DDL h) [Int_arg 1, Ptr_arg NULL] w;
             (_, w2) = sqlite3_db_config L db (SQLITE_DBCONFIG_DQS_DML h) [Int_arg 1, Ptr_arg NULL] w1
         in ((), w2))
      else ((), w))"

subsection \<open>What the header declares\<close>

text \<open>
  The top-level items of the header as data, in the order of the file, with the two
  preprocessor conditionals as branches on the macros. A prototype has no body; an inline
  function has one.
\<close>

datatype c_type =
    Void_t
  | Int_t
  | UChar_t
  | Const_char_t
  | Named_t string
  | Pointer_t c_type
  | Array_t c_type nat
  | Function_t c_type "c_type list"

datatype item =
    Typedef string c_type
  | Struct string "(string \<times> c_type) list"
  | Prototype string c_type "(string \<times> c_type) list"
  | Inline_function string c_type "(string \<times> c_type) list"

fun item_name :: "item \<Rightarrow> string" where
  "item_name (Typedef n _) = n"
| "item_name (Struct n _) = n"
| "item_name (Prototype n _ _) = n"
| "item_name (Inline_function n _ _) = n"

fun is_definition :: "item \<Rightarrow> bool" where
  "is_definition (Inline_function _ _ _) = True"
| "is_definition _ = False"

fun is_prototype :: "item \<Rightarrow> bool" where
  "is_prototype (Prototype _ _ _) = True"
| "is_prototype _ = False"

fun is_struct :: "item \<Rightarrow> bool" where
  "is_struct (Struct _ _) = True"
| "is_struct _ = False"

definition snapshot_api :: "sqlite3_h \<Rightarrow> item list" where
  "snapshot_api h =
     (if \<not> SQLITE_ENABLE_SNAPSHOT h then
        [Struct ''sqlite3_snapshot'' [(''hidden'', Array_t UChar_t 48)],
         Prototype ''sqlite3_snapshot_get'' Int_t
           [(''db'', Pointer_t (Named_t ''sqlite3'')),
            (''zSchema'', Pointer_t Const_char_t),
            (''ppSnapshot'', Pointer_t (Pointer_t (Named_t ''sqlite3_snapshot'')))],
         Prototype ''sqlite3_snapshot_open'' Int_t
           [(''db'', Pointer_t (Named_t ''sqlite3'')),
            (''zSchema'', Pointer_t Const_char_t),
            (''pSnapshot'', Pointer_t (Named_t ''sqlite3_snapshot''))],
         Prototype ''sqlite3_snapshot_free'' Void_t
           [('''', Pointer_t (Named_t ''sqlite3_snapshot''))],
         Prototype ''sqlite3_snapshot_cmp'' Int_t
           [(''p1'', Pointer_t (Named_t ''sqlite3_snapshot'')),
            (''p2'', Pointer_t (Named_t ''sqlite3_snapshot''))],
         Prototype ''sqlite3_snapshot_recover'' Int_t
           [(''db'', Pointer_t (Named_t ''sqlite3'')),
            (''zDb'', Pointer_t Const_char_t)]]
      else [])"

definition shim_h :: "sqlite3_h \<Rightarrow> item list" where
  "shim_h h =
     [Typedef ''errorLogCallback''
        (Pointer_t (Function_t Void_t [Pointer_t Void_t, Int_t, Pointer_t Const_char_t])),
      Inline_function ''registerErrorLogCallback'' Void_t
        [(''callback'', Named_t ''errorLogCallback'')],
      Inline_function ''disableDoubleQuotedStringLiterals'' Void_t
        [(''db'', Pointer_t (Named_t ''sqlite3''))],
      Inline_function ''enableDoubleQuotedStringLiterals'' Void_t
        [(''db'', Pointer_t (Named_t ''sqlite3''))]]
     @ snapshot_api h"

text \<open>
  The items of the snapshot API are those whose name starts with \<^verbatim>\<open>sqlite3_snapshot\<close>.
\<close>

definition snapshot_items :: "item list \<Rightarrow> item list" where
  "snapshot_items its = filter (\<lambda>i. take 16 (item_name i) = ''sqlite3_snapshot'') its"

text \<open>
  Sizes in bytes, for the types whose size the C standard fixes: \<^verbatim>\<open>unsigned char\<close> is one
  byte and an array is its elements laid end to end. A struct whose members all have
  alignment 1 is the sum of its members.
\<close>

fun sizeof :: "c_type \<Rightarrow> nat option" where
  "sizeof UChar_t = Some 1"
| "sizeof (Array_t t n) = map_option (\<lambda>k. n * k) (sizeof t)"
| "sizeof _ = None"

fun struct_size :: "(string \<times> c_type) list \<Rightarrow> nat option" where
  "struct_size [] = Some 0"
| "struct_size ((_, t) # ms) =
     (case sizeof t of None \<Rightarrow> None
      | Some k \<Rightarrow> map_option (\<lambda>r. k + r) (struct_size ms))"

subsection \<open>What is asked of the library\<close>

text \<open>
  Whether an option ends up set is decided inside SQLite. The properties of the wrappers
  below that depend on it are stated for every library that keeps the documented behaviour
  of the three options; \<open>flag\<close> and \<open>installed\<close> read the library's state.

  The double-quoted-string options: a call with the value 0 or 1 and a null result pointer
  leaves that option of that connection equal to the value, and every other option of every
  connection as it was.
\<close>

definition dqs_contract ::
  "sqlite3_h \<Rightarrow> ('f, 'w) sqlite3_api \<Rightarrow> ('w \<Rightarrow> ptr \<Rightarrow> int \<Rightarrow> int) \<Rightarrow> bool" where
  "dqs_contract h L flag \<longleftrightarrow>
     (\<forall>db opt v w.
        (opt = SQLITE_DBCONFIG_DQS_DDL h \<or> opt = SQLITE_DBCONFIG_DQS_DML h) \<and> (v = 0 \<or> v = 1) \<longrightarrow>
        flag (snd (sqlite3_db_config L db opt [Int_arg v, Ptr_arg NULL] w)) db opt = v \<and>
        (\<forall>db' opt'. (db', opt') \<noteq> (db, opt) \<longrightarrow>
           flag (snd (sqlite3_db_config L db opt [Int_arg v, Ptr_arg NULL] w)) db' opt'
             = flag w db' opt'))"

text \<open>
  The log option: a call that returns \<^verbatim>\<open>SQLITE_OK\<close> leaves the callback and the context
  argument it was given installed; the library hands that context to the callback as
  \<^verbatim>\<open>pArg\<close> each time it logs.
\<close>

definition log_contract ::
  "sqlite3_h \<Rightarrow> ('f, 'w) sqlite3_api \<Rightarrow> ('w \<Rightarrow> ('f \<times> 'f vararg) option) \<Rightarrow> bool" where
  "log_contract h L installed \<longleftrightarrow>
     (\<forall>f a w.
        fst (sqlite3_config L (SQLITE_CONFIG_LOG h) [Fn_arg f, a] w) = SQLITE_OK h \<longrightarrow>
        installed (snd (sqlite3_config L (SQLITE_CONFIG_LOG h) [Fn_arg f, a] w)) = Some (f, a))"

text \<open>
  Two libraries that act alike on the state, whatever result codes they return.
\<close>

definition same_effects :: "('f, 'w) sqlite3_api \<Rightarrow> ('f, 'w) sqlite3_api \<Rightarrow> bool" where
  "same_effects L L' \<longleftrightarrow>
     (\<forall>opt args w. snd (sqlite3_config L opt args w) = snd (sqlite3_config L' opt args w)) \<and>
     (\<forall>db opt args w.
        snd (sqlite3_db_config L db opt args w) = snd (sqlite3_db_config L' db opt args w))"

text \<open>
  An argument that the callee reads as a pointer is null when it is the integer 0 or the
  null pointer.
\<close>

fun is_null :: "'f vararg \<Rightarrow> bool" where
  "is_null (Int_arg i) = (i = 0)"
| "is_null (Ptr_arg p) = (p = NULL)"
| "is_null (Fn_arg _) = False"

subsection \<open>A library double\<close>

text \<open>
  A stand-in for the library, used to run the wrappers on concrete inputs: it logs every call
  it receives, keeps a table of the integer options of each connection and the installed log
  callback with its context, and answers every call with the result code \<open>rc\<close> it was
  built with. The field \<open>storage\<close> stands for state no configuration call touches.
\<close>

datatype 'f call =
    Config_call int "'f vararg list"
  | Db_config_call ptr int "'f vararg list"

record 'f double_state =
  calls :: "'f call list"
  db_options :: "ptr \<Rightarrow> int \<Rightarrow> int"
  logger :: "('f \<times> 'f vararg) option"
  storage :: "nat list"

fun double_config :: "int \<Rightarrow> int \<Rightarrow> 'f vararg list \<Rightarrow> 'f double_state \<Rightarrow> int \<times> 'f double_state" where
  "double_config rc opt [Fn_arg f, a] w =
     (rc, w\<lparr>calls := calls w @ [Config_call opt [Fn_arg f, a]], logger := Some (f, a)\<rparr>)"
| "double_config rc opt args w =
     (rc, w\<lparr>calls := calls w @ [Config_call opt args]\<rparr>)"

fun double_db_config ::
  "int \<Rightarrow> ptr \<Rightarrow> int \<Rightarrow> 'f vararg list \<Rightarrow> 'f double_state \<Rightarrow> int \<times> 'f double_state" where
  "double_db_config rc db opt [Int_arg v, Ptr_arg p] w =
     (rc, w\<lparr>calls := calls w @ [Db_config_call db opt [Int_arg v, Ptr_arg p]],
            db_options := (db_options w)(db := (db_options w db)(opt := v))\<rparr>)"
| "double_db_config rc db opt args w =
     (rc, w\<lparr>calls := calls w @ [Db_config_call db opt args]\<rparr>)"

definition double_api :: "int \<Rightarrow> ('f, 'f double_state) sqlite3_api" where
  "double_api rc = \<lparr>sqlite3_config = double_config rc, sqlite3_db_config = double_db_config rc\<rparr>"

definition fresh :: "'f double_state" where
  "fresh = \<lparr>calls = [], db_options = (\<lambda>_ _. -1), logger = None, storage = [1, 2, 3]\<rparr>"






text \<open>
  Two headers: SQLite 3.43.2 built without the snapshot API, and SQLite 3.24.0 built with it.
\<close>

definition sqlite_3_43 :: sqlite3_h where
  "sqlite_3_43 = \<lparr>SQLITE_VERSION_NUMBER = 3043002, SQLITE_OK = 0, SQLITE_CONFIG_LOG = 16,
     SQLITE_DBCONFIG_DQS_DML = 1013, SQLITE_DBCONFIG_DQS_DDL = 1014,
     SQLITE_ENABLE_SNAPSHOT = False\<rparr>"

definition sqlite_3_24 :: sqlite3_h where
  "sqlite_3_24 = \<lparr>SQLITE_VERSION_NUMBER = 3024000, SQLITE_OK = 0, SQLITE_CONFIG_LOG = 16,
     SQLITE_DBCONFIG_DQS_DML = 1013, SQLITE_DBCONFIG_DQS_DDL = 1014,
     SQLITE_ENABLE_SNAPSHOT = True\<rparr>"

section \<open>The storage engine of the specification\<close>

text \<open>
  Sections 3 to 8 of the specification describe a write-ahead log with snapshots. The
  repository holds no code for it: \<^verbatim>\<open>shim.h\<close> only declares SQLite's snapshot functions.
  Every definition of this section is therefore written from the specification's words, and
  says which words.
\<close>

subsection \<open>Data model\<close>

text \<open>
  Modelled from the spec: section 3 and the frame layout of section 6
  (\<^verbatim>\<open>[PageNumber:4][CommitSequence:8][PageBytes:N]\<close>); no source file defines these types.
  A page number is 4 bytes, a commit sequence a 64-bit counter.
\<close>

type_synonym PageNumber = "32 word"
type_synonym CommitSequence = "64 word"
type_synonym bytes = "8 word list"

text \<open>Modelled from the spec: the error taxonomy of section 7; no source file defines it.\<close>

datatype error = IOFailure | Corruption | WriteConflict | InvalidToken | PageNotFound

text \<open>
  Modelled from the spec: "Frame: one versioned page image appended to the WAL; attributes:
  PageNumber, CommitSequence, raw bytes"; no source file defines it.
\<close>

record Frame =
  pageNumber :: PageNumber
  commitSequence :: CommitSequence
  pageBytes :: bytes

text \<open>
  Modelled from the spec: "Snapshot: an opaque handle capturing a CommitSequence boundary";
  "multiple Snapshots may share one boundary", so a handle has an identity of its own. The
  source only has the opaque \<^verbatim>\<open>struct sqlite3_snapshot\<close>.
\<close>

record Snapshot =
  handle :: nat
  boundary :: CommitSequence

text \<open>
  Modelled from the spec: the WAL as the append-only list of its frames, oldest first, and
  the ReadMark, "the highest committed CommitSequence"; the base page image of the Page
  Store, which only a checkpoint changes. No source file defines them.
\<close>

record engine =
  base :: "PageNumber \<rightharpoonup> bytes"
  wal :: "Frame list"
  readMark :: CommitSequence

text \<open>
  Modelled from the spec: the Snapshot Manager's "registry mapping live Snapshots to reference
  counts per boundary"; \<open>next_handle\<close> numbers the handles. No source file defines it.
\<close>

record registry =
  live :: "Snapshot set"
  refcount :: "CommitSequence \<Rightarrow> nat"
  next_handle :: nat

subsection \<open>Write-ahead log and commit\<close>

text \<open>Modelled from the spec: an engine with an empty log, before the first commit.\<close>

definition empty_engine :: "(PageNumber \<rightharpoonup> bytes) \<Rightarrow> engine" where
  "empty_engine pages = \<lparr>base = pages, wal = [], readMark = 0\<rparr>"

text \<open>
  Modelled from the spec: \<^verbatim>\<open>appendFrames(CommitSequence, ordered sequence of
  (PageNumber, bytes))\<close> appends one frame per write, in order, all with the commit's
  sequence. The source has no WAL code. Checksums and the commit marker of the file format
  are not part of this model.
\<close>

fun frame :: "CommitSequence \<Rightarrow> PageNumber \<times> bytes \<Rightarrow> Frame" where
  "frame s (p, b) = \<lparr>pageNumber = p, commitSequence = s, pageBytes = b\<rparr>"

definition appendFrames ::
  "CommitSequence \<Rightarrow> (PageNumber \<times> bytes) list \<Rightarrow> Frame list \<Rightarrow> Frame list" where
  "appendFrames s writes log = log @ map (frame s) writes"

text \<open>
  Modelled from the spec: \<^verbatim>\<open>frameIndex.lookup(PageNumber, CommitSequence)\<close> "returns the
  newest frame for that page with CommitSequence <= boundary, else none": the log is
  searched from its newest frame back. The source has no frame index.
\<close>

definition frameIndex_lookup :: "Frame list \<Rightarrow> PageNumber \<Rightarrow> CommitSequence \<Rightarrow> Frame option" where
  "frameIndex_lookup log p S =
     List.find (\<lambda>f. pageNumber f = p \<and> commitSequence f \<le> S) (rev log)"

text \<open>
  Modelled from the spec: \<^verbatim>\<open>read(PageNumber, CommitSequence)\<close> "queries the WAL first for
  the newest frame with CommitSequence <= requested, falling back to the base page image
  only if no such frame exists", and fails with \<^verbatim>\<open>PageNotFound\<close> for a page that has
  neither. The source has no page store.
\<close>

definition read :: "engine \<Rightarrow> PageNumber \<Rightarrow> CommitSequence \<Rightarrow> error + bytes" where
  "read e p S =
     (case frameIndex_lookup (wal e) p S of
        Some f \<Rightarrow> Inr (pageBytes f)
      | None \<Rightarrow> (case base e p of Some b \<Rightarrow> Inr b | None \<Rightarrow> Inl PageNotFound))"

text \<open>
  Modelled from the spec: \<^verbatim>\<open>commit()\<close> "assigns the next CommitSequence, calls WAL
  appendFrames, then atomically advances ReadMark". The next sequence is the ReadMark plus
  one, in 64 bits. The source has no transaction coordinator.
\<close>

definition commit :: "(PageNumber \<times> bytes) list \<Rightarrow> engine \<Rightarrow> engine" where
  "commit writes e =
     (let s = readMark e + 1
      in e\<lparr>wal := appendFrames s writes (wal e), readMark := s\<rparr>)"

subsection \<open>Snapshot manager\<close>

text \<open>Modelled from the spec: the registry before any snapshot was captured.\<close>

definition empty_registry :: registry where
  "empty_registry = \<lparr>live = {}, refcount = (\<lambda>_. 0), next_handle = 0\<rparr>"

text \<open>
  Modelled from the spec: \<^verbatim>\<open>capture()\<close> "reads the current ReadMark and returns a handle
  pinning that CommitSequence"; \<open>mark\<close> is the ReadMark read. The source only declares
  \<^verbatim>\<open>sqlite3_snapshot_get\<close>.
\<close>

definition capture :: "CommitSequence \<Rightarrow> registry \<Rightarrow> Snapshot \<times> registry" where
  "capture mark r =
     (let s = \<lparr>handle = next_handle r, boundary = mark\<rparr>
      in (s, r\<lparr>live := insert s (live r),
               refcount := (refcount r)(boundary s := refcount r (boundary s) + 1),
               next_handle := next_handle r + 1\<rparr>))"

text \<open>
  Modelled from the spec: \<^verbatim>\<open>release(Snapshot)\<close> "unpins it", and "calling release on an
  already-released Snapshot is rejected with a defined error". The specification does not
  name the error; the model returns \<^verbatim>\<open>InvalidToken\<close>, its caller error for snapshot
  handles. The source only declares \<^verbatim>\<open>sqlite3_snapshot_free\<close>.
\<close>

definition release :: "Snapshot \<Rightarrow> registry \<Rightarrow> error + registry" where
  "release s r =
     (if s \<in> live r then
        Inr (r\<lparr>live := live r - {s},
               refcount := (refcount r)(boundary s := refcount r (boundary s) - 1)\<rparr>)
      else Inl InvalidToken)"

text \<open>
  Modelled from the spec: \<^verbatim>\<open>compare(Snapshot, Snapshot) -> {Before, Same, After}\<close> "orders
  by boundary CommitSequence". The source only declares \<^verbatim>\<open>sqlite3_snapshot_cmp\<close>.
\<close>

datatype Ordering = Before | Same | After

definition compare :: "Snapshot \<Rightarrow> Snapshot \<Rightarrow> Ordering" where
  "compare s1 s2 =
     (if boundary s1 < boundary s2 then Before
      else if boundary s1 = boundary s2 then Same
      else After)"

text \<open>
  A run of the Snapshot Manager: captures and releases in any order. A release that is
  rejected returns no registry, so the registry stays as it was.
\<close>

datatype op = Capture CommitSequence | Release Snapshot

fun apply_op :: "op \<Rightarrow> registry \<Rightarrow> registry" where
  "apply_op (Capture mark) r = snd (capture mark r)"
| "apply_op (Release s) r = (case release s r of Inl _ \<Rightarrow> r | Inr r' \<Rightarrow> r')"

subsection \<open>Invariants\<close>

text \<open>
  The log is ordered by commit sequence and holds no frame beyond the ReadMark.
\<close>

definition committed :: "engine \<Rightarrow> bool" where
  "committed e \<longleftrightarrow>
     sorted (map commitSequence (wal e)) \<and> (\<forall>f \<in> set (wal e). commitSequence f \<le> readMark e)"

text \<open>
  The reference count of each boundary is the number of live snapshots at that boundary, and
  every live handle was numbered by the registry.
\<close>

definition accounted :: "registry \<Rightarrow> bool" where
  "accounted r \<longleftrightarrow>
     finite (live r) \<and> (\<forall>s \<in> live r. handle s < next_handle r) \<and>
     (\<forall>b. refcount r b = card {s \<in> live r. boundary s = b})"

text \<open>A handle that the registry issued and that is no longer live.\<close>

definition retired :: "Snapshot \<Rightarrow> registry \<Rightarrow> bool" where
  "retired s r \<longleftrightarrow> s \<notin> live r \<and> handle s < next_handle r"

subsection \<open>A scenario\<close>

text \<open>
  Section 8: write "A" to page 1 and commit, then write "B" to page 1 and commit.
\<close>

definition two_commits :: "(PageNumber \<times> bytes) list list" where
  "two_commits = [[(1, [65])], [(1, [66])]]"

definition first_snapshot :: Snapshot where
  "first_snapshot = \<lparr>handle = 0, boundary = 1\<rparr>"

definition second_snapshot :: Snapshot where
  "second_snapshot = \<lparr>handle = 1, boundary = 1\<rparr>"


section \<open>Properties of the shim\<close>

subsection \<open>The wrappers as compositions of library calls\<close>

lemma registerErrorLogCallback_eq:
  "registerErrorLogCallback h L cb w =
     ((), snd (sqlite3_config L (SQLITE_CONFIG_LOG h) [Fn_arg cb, Int_arg 0] w))"
  by (simp add: registerErrorLogCallback_def split: prod.splits)

lemma disable_eq:
  "disableDoubleQuotedStringLiterals h L db w =
     (if SQLITE_VERSION_NUMBER h \<ge> 3029000 then
        ((), snd (sqlite3_db_config L db (SQLITE_DBCONFIG_DQS_DML h) [Int_arg 0, Ptr_arg NULL]
               (snd (sqlite3_db_config L db (SQLITE_DBCONFIG_DQS_DDL h) [Int_arg 0, Ptr_arg NULL] w))))
      else ((), w))"
  by (simp add: disableDoubleQuotedStringLiterals_def split: prod.splits)

lemma enable_eq:
  "enableDoubleQuotedStringLiterals h L db w =
     (if SQLITE_VERSION_NUMBER h \<ge> 3029000 then
        ((), snd (sqlite3_db_config L db (SQLITE_DBCONFIG_DQS_DML h) [Int_arg 1, Ptr_arg NULL]
               (snd (sqlite3_db_config L db (SQLITE_DBCONFIG_DQS_DDL h) [Int_arg 1, Ptr_arg NULL] w))))
      else ((), w))"
  by (simp add: enableDoubleQuotedStringLiterals_def split: prod.splits)

subsection \<open>The double keeps the contracts\<close>

lemma double_dqs_contract: "dqs_contract h (double_api rc) db_options"
  by (simp add: dqs_contract_def double_api_def)

lemma double_log_contract: "log_contract h (double_api rc) logger"
  by (simp add: log_contract_def double_api_def)


lemma double_same_effects: "same_effects (double_api rc) (double_api rc')"
  unfolding same_effects_def double_api_def
proof (intro conjI allI)
  fix opt args and w :: "'a double_state"
  show "snd (sqlite3_config
              \<lparr>sqlite3_config = double_config rc, sqlite3_db_config = double_db_config rc\<rparr>
              opt args w) =
        snd (sqlite3_config
              \<lparr>sqlite3_config = double_config rc', sqlite3_db_config = double_db_config rc'\<rparr>
              opt args w)"
    by (cases "(rc, opt, args, w)" rule: double_config.cases) auto
next
  fix db opt args and w :: "'a double_state"
  show "snd (sqlite3_db_config
              \<lparr>sqlite3_config = double_config rc, sqlite3_db_config = double_db_config rc\<rparr>
              db opt args w) =
        snd (sqlite3_db_config
              \<lparr>sqlite3_config = double_config rc', sqlite3_db_config = double_db_config rc'\<rparr>
              db opt args w)"
    by (cases "(rc, db, opt, args, w)" rule: double_db_config.cases) auto
qed

lemma double_register_calls:
  "calls (snd (registerErrorLogCallback h (double_api rc) cb w0)) =
     calls w0 @ [Config_call (SQLITE_CONFIG_LOG h) [Fn_arg cb, Int_arg 0]]"
  by (simp add: registerErrorLogCallback_eq double_api_def)

lemma double_toggle_calls:
  assumes "SQLITE_VERSION_NUMBER h \<ge> 3029000"
  shows "calls (snd (disableDoubleQuotedStringLiterals h (double_api rc) db w0)) =
           calls w0 @ [Db_config_call db (SQLITE_DBCONFIG_DQS_DDL h) [Int_arg 0, Ptr_arg NULL],
                       Db_config_call db (SQLITE_DBCONFIG_DQS_DML h) [Int_arg 0, Ptr_arg NULL]]"
    and "calls (snd (enableDoubleQuotedStringLiterals h (double_api rc) db w0)) =
           calls w0 @ [Db_config_call db (SQLITE_DBCONFIG_DQS_DDL h) [Int_arg 1, Ptr_arg NULL],
                       Db_config_call db (SQLITE_DBCONFIG_DQS_DML h) [Int_arg 1, Ptr_arg NULL]]"
  using assms by (simp_all add: disable_eq enable_eq double_api_def)

subsection \<open>Two calls under the option contract\<close>

lemma dqs_set:
  assumes "dqs_contract h L flag"
    and "opt = SQLITE_DBCONFIG_DQS_DDL h \<or> opt = SQLITE_DBCONFIG_DQS_DML h" and "v = 0 \<or> v = 1"
  shows "flag (snd (sqlite3_db_config L db opt [Int_arg v, Ptr_arg NULL] w)) db opt = v"
  using assms unfolding dqs_contract_def by blast

lemma dqs_kept:
  assumes "dqs_contract h L flag"
    and "opt = SQLITE_DBCONFIG_DQS_DDL h \<or> opt = SQLITE_DBCONFIG_DQS_DML h" and "v = 0 \<or> v = 1"
    and "(db', opt') \<noteq> (db, opt)"
  shows "flag (snd (sqlite3_db_config L db opt [Int_arg v, Ptr_arg NULL] w)) db' opt'
           = flag w db' opt'"
  using assms unfolding dqs_contract_def by blast

lemma dqs_twice:
  assumes c: "dqs_contract h L flag" and v: "v = 0 \<or> v = 1"
  shows "flag (snd (sqlite3_db_config L db (SQLITE_DBCONFIG_DQS_DML h) [Int_arg v, Ptr_arg NULL]
               (snd (sqlite3_db_config L db (SQLITE_DBCONFIG_DQS_DDL h) [Int_arg v, Ptr_arg NULL] w))))
           db (SQLITE_DBCONFIG_DQS_DDL h) = v
       \<and> flag (snd (sqlite3_db_config L db (SQLITE_DBCONFIG_DQS_DML h) [Int_arg v, Ptr_arg NULL]
               (snd (sqlite3_db_config L db (SQLITE_DBCONFIG_DQS_DDL h) [Int_arg v, Ptr_arg NULL] w))))
           db (SQLITE_DBCONFIG_DQS_DML h) = v"
proof (cases "SQLITE_DBCONFIG_DQS_DDL h = SQLITE_DBCONFIG_DQS_DML h")
  case True
  then show ?thesis using dqs_set [OF c _ v] by simp
next
  case False
  have "flag (snd (sqlite3_db_config L db (SQLITE_DBCONFIG_DQS_DML h) [Int_arg v, Ptr_arg NULL]
               (snd (sqlite3_db_config L db (SQLITE_DBCONFIG_DQS_DDL h) [Int_arg v, Ptr_arg NULL] w))))
           db (SQLITE_DBCONFIG_DQS_DDL h)
        = flag (snd (sqlite3_db_config L db (SQLITE_DBCONFIG_DQS_DDL h) [Int_arg v, Ptr_arg NULL] w))
           db (SQLITE_DBCONFIG_DQS_DDL h)"
    using False by (intro dqs_kept [OF c _ v]) auto
  then show ?thesis using dqs_set [OF c _ v] by simp
qed

subsection \<open>The header's snapshot items\<close>

lemma snapshot_items_off:
  "\<not> SQLITE_ENABLE_SNAPSHOT h \<Longrightarrow> snapshot_items (shim_h h) = snapshot_api h"
  by (simp add: shim_h_def snapshot_api_def snapshot_items_def)

lemma snapshot_items_on:
  "SQLITE_ENABLE_SNAPSHOT h \<Longrightarrow> snapshot_items (shim_h h) = []"
  by (simp add: shim_h_def snapshot_api_def snapshot_items_def)

lemma header_values:
  "SQLITE_VERSION_NUMBER sqlite_3_43 = 3043002" "SQLITE_OK sqlite_3_43 = 0"
  "SQLITE_CONFIG_LOG sqlite_3_43 = 16" "SQLITE_DBCONFIG_DQS_DML sqlite_3_43 = 1013"
  "SQLITE_DBCONFIG_DQS_DDL sqlite_3_43 = 1014" "SQLITE_ENABLE_SNAPSHOT sqlite_3_43 = False"
  "SQLITE_VERSION_NUMBER sqlite_3_24 = 3024000" "SQLITE_ENABLE_SNAPSHOT sqlite_3_24 = True"
  by (simp_all add: sqlite_3_43_def sqlite_3_24_def)

subsection \<open>The claims about the shim\<close>

text \<open>
  Claim C1. Compiled against SQLite 3.29.0 or newer, each toggle is two calls of
  \<^verbatim>\<open>sqlite3_db_config\<close> on \<open>db\<close> and nothing else: first the DQS_DDL option, then the
  DQS_DML option, with the value 0 for \<open>disableDoubleQuotedStringLiterals\<close> and 1 for
  \<open>enableDoubleQuotedStringLiterals\<close>, and a null result pointer. A library that logs its
  calls sees exactly these two. In every library that keeps the option contract, both flags
  of \<open>db\<close> are 0 after the first function and 1 after the second.
\<close>

theorem dqs_toggles_set_both_flags:
  assumes "SQLITE_VERSION_NUMBER h \<ge> 3029000"
  shows "snd (disableDoubleQuotedStringLiterals h L db w) =
           snd (sqlite3_db_config L db (SQLITE_DBCONFIG_DQS_DML h) [Int_arg 0, Ptr_arg NULL]
             (snd (sqlite3_db_config L db (SQLITE_DBCONFIG_DQS_DDL h) [Int_arg 0, Ptr_arg NULL] w)))
       \<and> snd (enableDoubleQuotedStringLiterals h L db w) =
           snd (sqlite3_db_config L db (SQLITE_DBCONFIG_DQS_DML h) [Int_arg 1, Ptr_arg NULL]
             (snd (sqlite3_db_config L db (SQLITE_DBCONFIG_DQS_DDL h) [Int_arg 1, Ptr_arg NULL] w)))
       \<and> calls (snd (disableDoubleQuotedStringLiterals h (double_api rc) db w0)) =
           calls w0 @ [Db_config_call db (SQLITE_DBCONFIG_DQS_DDL h) [Int_arg 0, Ptr_arg NULL],
                       Db_config_call db (SQLITE_DBCONFIG_DQS_DML h) [Int_arg 0, Ptr_arg NULL]]
       \<and> calls (snd (enableDoubleQuotedStringLiterals h (double_api rc) db w0)) =
           calls w0 @ [Db_config_call db (SQLITE_DBCONFIG_DQS_DDL h) [Int_arg 1, Ptr_arg NULL],
                       Db_config_call db (SQLITE_DBCONFIG_DQS_DML h) [Int_arg 1, Ptr_arg NULL]]
       \<and> (dqs_contract h L flag \<longrightarrow>
            flag (snd (disableDoubleQuotedStringLiterals h L db w)) db (SQLITE_DBCONFIG_DQS_DDL h) = 0
          \<and> flag (snd (disableDoubleQuotedStringLiterals h L db w)) db (SQLITE_DBCONFIG_DQS_DML h) = 0
          \<and> flag (snd (enableDoubleQuotedStringLiterals h L db w)) db (SQLITE_DBCONFIG_DQS_DDL h) = 1
          \<and> flag (snd (enableDoubleQuotedStringLiterals h L db w)) db (SQLITE_DBCONFIG_DQS_DML h) = 1)"
proof (intro conjI impI)
  show "snd (disableDoubleQuotedStringLiterals h L db w) =
           snd (sqlite3_db_config L db (SQLITE_DBCONFIG_DQS_DML h) [Int_arg 0, Ptr_arg NULL]
             (snd (sqlite3_db_config L db (SQLITE_DBCONFIG_DQS_DDL h) [Int_arg 0, Ptr_arg NULL] w)))"
    using assms by (simp add: disable_eq)
  show "snd (enableDoubleQuotedStringLiterals h L db w) =
           snd (sqlite3_db_config L db (SQLITE_DBCONFIG_DQS_DML h) [Int_arg 1, Ptr_arg NULL]
             (snd (sqlite3_db_config L db (SQLITE_DBCONFIG_DQS_DDL h) [Int_arg 1, Ptr_arg NULL] w)))"
    using assms by (simp add: enable_eq)
  show "calls (snd (disableDoubleQuotedStringLiterals h (double_api rc) db w0)) =
           calls w0 @ [Db_config_call db (SQLITE_DBCONFIG_DQS_DDL h) [Int_arg 0, Ptr_arg NULL],
                       Db_config_call db (SQLITE_DBCONFIG_DQS_DML h) [Int_arg 0, Ptr_arg NULL]]"
    using assms by (rule double_toggle_calls(1))
  show "calls (snd (enableDoubleQuotedStringLiterals h (double_api rc) db w0)) =
           calls w0 @ [Db_config_call db (SQLITE_DBCONFIG_DQS_DDL h) [Int_arg 1, Ptr_arg NULL],
                       Db_config_call db (SQLITE_DBCONFIG_DQS_DML h) [Int_arg 1, Ptr_arg NULL]]"
    using assms by (rule double_toggle_calls(2))
next
  assume c: "dqs_contract h L flag"
  show "flag (snd (disableDoubleQuotedStringLiterals h L db w)) db (SQLITE_DBCONFIG_DQS_DDL h) = 0"
    using assms dqs_twice [OF c, of 0 db w] by (simp add: disable_eq)
  show "flag (snd (disableDoubleQuotedStringLiterals h L db w)) db (SQLITE_DBCONFIG_DQS_DML h) = 0"
    using assms dqs_twice [OF c, of 0 db w] by (simp add: disable_eq)
  show "flag (snd (enableDoubleQuotedStringLiterals h L db w)) db (SQLITE_DBCONFIG_DQS_DDL h) = 1"
    using assms dqs_twice [OF c, of 1 db w] by (simp add: enable_eq)
  show "flag (snd (enableDoubleQuotedStringLiterals h L db w)) db (SQLITE_DBCONFIG_DQS_DML h) = 1"
    using assms dqs_twice [OF c, of 1 db w] by (simp add: enable_eq)
qed

theorem dqs_toggles_set_both_flags_witness:
  "SQLITE_VERSION_NUMBER sqlite_3_43 \<ge> 3029000
   \<and> dqs_contract sqlite_3_43 (double_api 0 :: (nat, nat double_state) sqlite3_api) db_options
   \<and> calls (snd (disableDoubleQuotedStringLiterals sqlite_3_43 (double_api 0) 7 (fresh :: nat double_state))) =
       [Db_config_call 7 1014 [Int_arg 0, Ptr_arg NULL], Db_config_call 7 1013 [Int_arg 0, Ptr_arg NULL]]
   \<and> db_options (snd (disableDoubleQuotedStringLiterals sqlite_3_43 (double_api 0) 7 (fresh :: nat double_state))) 7 1014 = 0
   \<and> db_options (snd (disableDoubleQuotedStringLiterals sqlite_3_43 (double_api 0) 7 (fresh :: nat double_state))) 7 1013 = 0
   \<and> db_options (snd (enableDoubleQuotedStringLiterals sqlite_3_43 (double_api 0) 7 (fresh :: nat double_state))) 7 1014 = 1
   \<and> db_options (snd (enableDoubleQuotedStringLiterals sqlite_3_43 (double_api 0) 7 (fresh :: nat double_state))) 7 1013 = 1"
proof -
  have v: "SQLITE_VERSION_NUMBER sqlite_3_43 \<ge> 3029000"
    by (simp add: header_values)
  have c: "dqs_contract sqlite_3_43 (double_api 0 :: (nat, nat double_state) sqlite3_api) db_options"
    by (rule double_dqs_contract)
  have e: "calls (fresh :: nat double_state) = []"
    by (simp add: fresh_def)
  show ?thesis
    using v c
      dqs_toggles_set_both_flags [OF v, where L = "double_api 0" and db = 7
        and w = "fresh :: nat double_state" and rc = 0 and ?w0.0 = "fresh :: nat double_state"
        and flag = db_options]
    unfolding header_values e append_Nil by blast
qed





text \<open>
  Claim C3. The two toggles touch the library's state only through the two option calls:
  whatever part of the state, such as the page store and the write-ahead log, those calls
  leave alone for the DQS_DDL and DQS_DML options with the values 0 and 1, the toggles leave
  alone. Compiled against SQLite older than 3.29.0, both toggles return the state they were
  given, for every library.
\<close>

theorem dqs_toggles_frame:
  "((\<forall>v w. v = 0 \<or> v = 1 \<longrightarrow>
        obs (snd (sqlite3_db_config L db (SQLITE_DBCONFIG_DQS_DDL h) [Int_arg v, Ptr_arg NULL] w)) = obs w
      \<and> obs (snd (sqlite3_db_config L db (SQLITE_DBCONFIG_DQS_DML h) [Int_arg v, Ptr_arg NULL] w)) = obs w)
    \<longrightarrow> obs (snd (disableDoubleQuotedStringLiterals h L db w)) = obs w
      \<and> obs (snd (enableDoubleQuotedStringLiterals h L db w)) = obs w)
 \<and> (SQLITE_VERSION_NUMBER h < 3029000 \<longrightarrow>
      disableDoubleQuotedStringLiterals h L db w = ((), w)
    \<and> enableDoubleQuotedStringLiterals h L db w = ((), w))"
proof (intro conjI impI)
  assume fr: "\<forall>v w. v = 0 \<or> v = 1 \<longrightarrow>
        obs (snd (sqlite3_db_config L db (SQLITE_DBCONFIG_DQS_DDL h) [Int_arg v, Ptr_arg NULL] w)) = obs w
      \<and> obs (snd (sqlite3_db_config L db (SQLITE_DBCONFIG_DQS_DML h) [Int_arg v, Ptr_arg NULL] w)) = obs w"
  have two: "obs (snd (sqlite3_db_config L db (SQLITE_DBCONFIG_DQS_DML h) [Int_arg v, Ptr_arg NULL]
               (snd (sqlite3_db_config L db (SQLITE_DBCONFIG_DQS_DDL h) [Int_arg v, Ptr_arg NULL] w))))
             = obs w" if v: "v = 0 \<or> v = 1" for v
  proof -
    have "obs (snd (sqlite3_db_config L db (SQLITE_DBCONFIG_DQS_DML h) [Int_arg v, Ptr_arg NULL]
               (snd (sqlite3_db_config L db (SQLITE_DBCONFIG_DQS_DDL h) [Int_arg v, Ptr_arg NULL] w))))
        = obs (snd (sqlite3_db_config L db (SQLITE_DBCONFIG_DQS_DDL h) [Int_arg v, Ptr_arg NULL] w))"
      using fr v by blast
    also have "\<dots> = obs w"
      using fr v by blast
    finally show ?thesis .
  qed
  show "obs (snd (disableDoubleQuotedStringLiterals h L db w)) = obs w"
    using two [of 0] by (simp add: disable_eq)
  show "obs (snd (enableDoubleQuotedStringLiterals h L db w)) = obs w"
    using two [of 1] by (simp add: enable_eq)
next
  assume "SQLITE_VERSION_NUMBER h < 3029000"
  then show "disableDoubleQuotedStringLiterals h L db w = ((), w)"
    and "enableDoubleQuotedStringLiterals h L db w = ((), w)"
    by (simp_all add: disable_eq enable_eq)
qed

theorem dqs_toggles_frame_witness:
  "storage (snd (disableDoubleQuotedStringLiterals sqlite_3_43 (double_api 0) 7 (fresh :: nat double_state)))
     = [1, 2, 3]
   \<and> storage (snd (enableDoubleQuotedStringLiterals sqlite_3_43 (double_api 0) 7 (fresh :: nat double_state)))
     = [1, 2, 3]
   \<and> SQLITE_VERSION_NUMBER sqlite_3_24 < 3029000
   \<and> disableDoubleQuotedStringLiterals sqlite_3_24 (double_api 0) 7 (fresh :: nat double_state) = ((), fresh)
   \<and> enableDoubleQuotedStringLiterals sqlite_3_24 (double_api 0) 7 (fresh :: nat double_state) = ((), fresh)"
proof -
  have fr: "\<forall>v w. v = 0 \<or> v = 1 \<longrightarrow>
        storage (snd (sqlite3_db_config (double_api 0 :: (nat, nat double_state) sqlite3_api) 7
                   (SQLITE_DBCONFIG_DQS_DDL sqlite_3_43) [Int_arg v, Ptr_arg NULL] w)) = storage w
      \<and> storage (snd (sqlite3_db_config (double_api 0 :: (nat, nat double_state) sqlite3_api) 7
                   (SQLITE_DBCONFIG_DQS_DML sqlite_3_43) [Int_arg v, Ptr_arg NULL] w)) = storage w"
    by (simp add: double_api_def)
  have old: "SQLITE_VERSION_NUMBER sqlite_3_24 < 3029000"
    by (simp add: header_values)
  have st: "storage (fresh :: nat double_state) = [1, 2, 3]"
    by (simp add: fresh_def)
  show ?thesis
    using fr old st
      dqs_toggles_frame [where obs = storage and L = "double_api 0 :: (nat, nat double_state) sqlite3_api"
        and db = 7 and h = sqlite_3_43 and w = fresh]
      dqs_toggles_frame [where obs = storage and L = "double_api 0 :: (nat, nat double_state) sqlite3_api"
        and db = 7 and h = sqlite_3_24 and w = fresh]
    by metis
qed

text \<open>
  Claim C4. When \<^verbatim>\<open>SQLITE_ENABLE_SNAPSHOT\<close> is not defined, the snapshot items of the
  header are the struct \<^verbatim>\<open>sqlite3_snapshot\<close> and the functions
  \<^verbatim>\<open>sqlite3_snapshot_get\<close>, \<^verbatim>\<open>_open\<close>, \<^verbatim>\<open>_free\<close>, \<^verbatim>\<open>_cmp\<close> and \<^verbatim>\<open>_recover\<close>; none
  of them has a body, they are the only prototypes of the header, and the struct, its only
  one, has the single member \<^verbatim>\<open>unsigned char hidden[48]\<close>, 48 bytes. When the macro is
  defined, the header has no snapshot item, no prototype and no struct.
\<close>

theorem snapshot_declarations:
  "(\<not> SQLITE_ENABLE_SNAPSHOT h \<longrightarrow>
      map item_name (snapshot_items (shim_h h)) =
        [''sqlite3_snapshot'', ''sqlite3_snapshot_get'', ''sqlite3_snapshot_open'',
         ''sqlite3_snapshot_free'', ''sqlite3_snapshot_cmp'', ''sqlite3_snapshot_recover'']
    \<and> filter is_definition (snapshot_items (shim_h h)) = []
    \<and> set (map item_name (filter is_prototype (shim_h h))) =
        {''sqlite3_snapshot_get'', ''sqlite3_snapshot_open'', ''sqlite3_snapshot_cmp'',
         ''sqlite3_snapshot_free'', ''sqlite3_snapshot_recover''}
    \<and> length (filter is_prototype (shim_h h)) = 5
    \<and> filter is_struct (shim_h h) = [Struct ''sqlite3_snapshot'' [(''hidden'', Array_t UChar_t 48)]]
    \<and> struct_size [(''hidden'', Array_t UChar_t 48)] = Some 48)
   \<and> (SQLITE_ENABLE_SNAPSHOT h \<longrightarrow>
        snapshot_items (shim_h h) = [] \<and> filter is_prototype (shim_h h) = []
      \<and> filter is_struct (shim_h h) = [])"
proof (intro conjI impI)
  assume off: "\<not> SQLITE_ENABLE_SNAPSHOT h"
  show "map item_name (snapshot_items (shim_h h)) =
        [''sqlite3_snapshot'', ''sqlite3_snapshot_get'', ''sqlite3_snapshot_open'',
         ''sqlite3_snapshot_free'', ''sqlite3_snapshot_cmp'', ''sqlite3_snapshot_recover'']"
    using off by (simp add: snapshot_items_off) (simp add: snapshot_api_def)
  show "filter is_definition (snapshot_items (shim_h h)) = []"
    using off by (simp add: snapshot_items_off) (simp add: snapshot_api_def)
  show "set (map item_name (filter is_prototype (shim_h h))) =
        {''sqlite3_snapshot_get'', ''sqlite3_snapshot_open'', ''sqlite3_snapshot_cmp'',
         ''sqlite3_snapshot_free'', ''sqlite3_snapshot_recover''}"
    using off by (simp add: shim_h_def snapshot_api_def insert_commute)
  show "length (filter is_prototype (shim_h h)) = 5"
    using off by (simp add: shim_h_def snapshot_api_def)
  show "filter is_struct (shim_h h) = [Struct ''sqlite3_snapshot'' [(''hidden'', Array_t UChar_t 48)]]"
    using off by (simp add: shim_h_def snapshot_api_def)
  show "struct_size [(''hidden'', Array_t UChar_t 48)] = Some 48"
    by simp
next
  assume on: "SQLITE_ENABLE_SNAPSHOT h"
  show "snapshot_items (shim_h h) = []"
    using on by (rule snapshot_items_on)
  show "filter is_prototype (shim_h h) = []"
    using on by (simp add: shim_h_def snapshot_api_def)
  show "filter is_struct (shim_h h) = []"
    using on by (simp add: shim_h_def snapshot_api_def)
qed

theorem snapshot_declarations_witness:
  "\<not> SQLITE_ENABLE_SNAPSHOT sqlite_3_43
   \<and> map item_name (snapshot_items (shim_h sqlite_3_43)) =
        [''sqlite3_snapshot'', ''sqlite3_snapshot_get'', ''sqlite3_snapshot_open'',
         ''sqlite3_snapshot_free'', ''sqlite3_snapshot_cmp'', ''sqlite3_snapshot_recover'']
   \<and> length (filter is_prototype (shim_h sqlite_3_43)) = 5
   \<and> SQLITE_ENABLE_SNAPSHOT sqlite_3_24
   \<and> snapshot_items (shim_h sqlite_3_24) = []"
proof -
  have off: "\<not> SQLITE_ENABLE_SNAPSHOT sqlite_3_43" and on: "SQLITE_ENABLE_SNAPSHOT sqlite_3_24"
    by (simp_all add: header_values)
  show ?thesis
    using off on snapshot_declarations [of sqlite_3_43] snapshot_declarations [of sqlite_3_24]
    by blast
qed

text \<open>
  Claim C9. The context argument that \<open>registerErrorLogCallback\<close> passes after the callback
  is the literal 0, whatever the callback: read as a pointer it is null. In every library
  that keeps the log contract, once the call has returned \<^verbatim>\<open>SQLITE_OK\<close> the context
  installed with the callback, which the library hands to it as \<^verbatim>\<open>pArg\<close>, is that 0.
\<close>

theorem registerErrorLogCallback_null_context:
  "calls (snd (registerErrorLogCallback h (double_api rc) cb w0)) =
     calls w0 @ [Config_call (SQLITE_CONFIG_LOG h) [Fn_arg cb, Int_arg 0]]
 \<and> is_null (Int_arg 0 :: 'f vararg)
 \<and> (log_contract h L installed
      \<and> fst (sqlite3_config L (SQLITE_CONFIG_LOG h) [Fn_arg (cb :: 'f), Int_arg 0] w) = SQLITE_OK h
    \<longrightarrow> map_option snd (installed (snd (registerErrorLogCallback h L cb w))) = Some (Int_arg 0))"
proof (intro conjI impI)
  show "calls (snd (registerErrorLogCallback h (double_api rc) cb w0)) =
     calls w0 @ [Config_call (SQLITE_CONFIG_LOG h) [Fn_arg cb, Int_arg 0]]"
    by (rule double_register_calls)
  show "is_null (Int_arg 0 :: 'f vararg)"
    by simp
next
  assume a: "log_contract h L installed
      \<and> fst (sqlite3_config L (SQLITE_CONFIG_LOG h) [Fn_arg cb, Int_arg 0] w) = SQLITE_OK h"
  have "installed (snd (registerErrorLogCallback h L cb w)) = Some (cb, Int_arg 0)"
    using a unfolding log_contract_def registerErrorLogCallback_eq by simp
  then show "map_option snd (installed (snd (registerErrorLogCallback h L cb w))) = Some (Int_arg 0)"
    by simp
qed

theorem registerErrorLogCallback_null_context_witness:
  "log_contract sqlite_3_43 (double_api 0 :: (nat, nat double_state) sqlite3_api) logger
   \<and> fst (sqlite3_config (double_api 0) (SQLITE_CONFIG_LOG sqlite_3_43)
            [Fn_arg (5::nat), Int_arg 0] fresh) = SQLITE_OK sqlite_3_43
   \<and> calls (snd (registerErrorLogCallback sqlite_3_43 (double_api 0) (5::nat) fresh)) =
       [Config_call 16 [Fn_arg 5, Int_arg 0]]
   \<and> map_option snd (logger (snd (registerErrorLogCallback sqlite_3_43 (double_api 0) (5::nat) fresh)))
       = Some (Int_arg 0)"
proof -
  have c: "log_contract sqlite_3_43 (double_api 0 :: (nat, nat double_state) sqlite3_api) logger"
    by (rule double_log_contract)
  have ok: "fst (sqlite3_config (double_api 0) (SQLITE_CONFIG_LOG sqlite_3_43)
              [Fn_arg (5::nat), Int_arg 0] fresh) = SQLITE_OK sqlite_3_43"
    by (simp add: double_api_def header_values)
  have e: "calls (fresh :: nat double_state) = []"
    by (simp add: fresh_def)
  have "calls (snd (registerErrorLogCallback sqlite_3_43 (double_api 0) (5::nat) fresh)) =
          [Config_call 16 [Fn_arg 5, Int_arg 0]]
      \<and> map_option snd (logger (snd (registerErrorLogCallback sqlite_3_43 (double_api 0) (5::nat) fresh)))
          = Some (Int_arg 0)"
    using c ok
      registerErrorLogCallback_null_context [where h = sqlite_3_43 and L = "double_api 0"
        and cb = "5::nat" and w = fresh and installed = logger and rc = 0 and ?w0.0 = fresh]
    unfolding e append_Nil header_values by blast
  then show ?thesis using c ok by blast
qed

text \<open>
  Claim C10. The three wrappers return no value, and nothing of their outcome depends on the
  result codes of \<^verbatim>\<open>sqlite3_config\<close> and \<^verbatim>\<open>sqlite3_db_config\<close>: two libraries that act
  alike on the state and differ only in the codes they return, such as one that succeeds and
  one that fails, give the caller the same outcome.
\<close>

theorem wrappers_discard_result_codes:
  assumes "same_effects L L'"
  shows "registerErrorLogCallback h L cb w = registerErrorLogCallback h L' cb w
       \<and> disableDoubleQuotedStringLiterals h L db w = disableDoubleQuotedStringLiterals h L' db w
       \<and> enableDoubleQuotedStringLiterals h L db w = enableDoubleQuotedStringLiterals h L' db w
       \<and> fst (registerErrorLogCallback h L cb w) = ()
       \<and> fst (disableDoubleQuotedStringLiterals h L db w) = ()
       \<and> fst (enableDoubleQuotedStringLiterals h L db w) = ()"
  using assms unfolding same_effects_def
  by (simp add: registerErrorLogCallback_eq disable_eq enable_eq)

theorem wrappers_discard_result_codes_witness:
  "same_effects (double_api 0 :: (nat, nat double_state) sqlite3_api) (double_api 21)
   \<and> fst (sqlite3_config (double_api 21) 16 [Fn_arg (5::nat), Int_arg 0] fresh) = 21
   \<and> registerErrorLogCallback sqlite_3_43 (double_api 0) (5::nat) fresh
       = registerErrorLogCallback sqlite_3_43 (double_api 21) 5 fresh
   \<and> disableDoubleQuotedStringLiterals sqlite_3_43 (double_api 0) 7 (fresh :: nat double_state)
       = disableDoubleQuotedStringLiterals sqlite_3_43 (double_api 21) 7 fresh
   \<and> enableDoubleQuotedStringLiterals sqlite_3_43 (double_api 0) 7 (fresh :: nat double_state)
       = enableDoubleQuotedStringLiterals sqlite_3_43 (double_api 21) 7 fresh"
proof -
  have s: "same_effects (double_api 0 :: (nat, nat double_state) sqlite3_api) (double_api 21)"
    by (rule double_same_effects)
  have rc: "fst (sqlite3_config (double_api 21) 16 [Fn_arg (5::nat), Int_arg 0] fresh) = 21"
    by (simp add: double_api_def)
  show ?thesis
    using s rc wrappers_discard_result_codes [OF s, where h = sqlite_3_43 and cb = 5 and w = fresh and db = 7]
    by blast
qed


section \<open>Properties of the specified engine\<close>

subsection \<open>Commit sequences\<close>

lemma frame_sequence: "commitSequence (frame s w) = s"
  by (cases w) simp

lemma word_succ_unat:
  fixes x :: CommitSequence
  assumes "unat x + 1 < 2 ^ 64"
  shows "unat (x + 1) = unat x + 1"
proof -
  have "unat x + unat (1 :: CommitSequence) < 2 ^ LENGTH(64)"
    using assms by simp
  then have "unat (x + 1) = unat x + unat (1 :: CommitSequence)"
    by (simp only: unat_add_lem)
  then show ?thesis by simp
qed

lemma commit_readMark:
  assumes "unat (readMark e) + 1 < 2 ^ 64"
  shows "unat (readMark (commit ws e)) = unat (readMark e) + 1"
  using word_succ_unat [OF assms] by (simp add: commit_def Let_def)

lemma commit_wal:
  "wal (commit ws e) = wal e @ map (frame (readMark e + 1)) ws"
  by (simp add: commit_def Let_def appendFrames_def)

lemma commit_mark: "readMark (commit ws e) = readMark e + 1"
  by (simp add: commit_def Let_def)

lemma commit_committed:
  assumes "committed e" and "unat (readMark e) + 1 < 2 ^ 64"
  shows "committed (commit ws e)"
proof -
  have lt: "readMark e \<le> readMark e + 1"
    using word_succ_unat [OF assms(2)] by (simp add: word_le_nat_alt)
  have old: "\<forall>f \<in> set (wal e). commitSequence f \<le> readMark e + 1"
    using assms(1) lt unfolding committed_def by (meson order_trans)
  have new: "\<forall>f \<in> set (map (frame (readMark e + 1)) ws). commitSequence f = readMark e + 1"
    by (auto simp: frame_sequence)
  have s2: "sorted (map commitSequence (map (frame (readMark e + 1)) ws))"
    by (induction ws) (auto simp: frame_sequence)
  have "sorted (map commitSequence (wal (commit ws e)))"
    unfolding commit_wal map_append sorted_append
    using assms(1) old new s2 unfolding committed_def by auto
  moreover have "\<forall>f \<in> set (wal (commit ws e)). commitSequence f \<le> readMark (commit ws e)"
    using old new by (auto simp: commit_wal commit_mark)
  ultimately show ?thesis unfolding committed_def by simp
qed

lemma commits_readMark:
  assumes "unat (readMark e) + length cs < 2 ^ 64"
  shows "unat (readMark (fold commit cs e)) = unat (readMark e) + length cs"
  using assms
proof (induction cs arbitrary: e)
  case Nil
  then show ?case by simp
next
  case (Cons c cs)
  have one: "unat (readMark e) + 1 < 2 ^ 64" using Cons.prems by simp
  have r1: "unat (readMark (commit c e)) = unat (readMark e) + 1" using commit_readMark [OF one] .
  have "unat (readMark (fold commit cs (commit c e))) = unat (readMark (commit c e)) + length cs"
    using Cons.IH [of "commit c e"] r1 Cons.prems by simp
  then show ?case using r1 by simp
qed

lemma commits_step:
  assumes "committed e" and "unat (readMark e) + length cs < 2 ^ 64"
  shows "committed (fold commit cs e)
       \<and> unat (readMark (fold commit cs e)) = unat (readMark e) + length cs
       \<and> take (length (wal e)) (wal (fold commit cs e)) = wal e
       \<and> (\<forall>f \<in> set (drop (length (wal e)) (wal (fold commit cs e))). readMark e < commitSequence f)"
  using assms
proof (induction cs arbitrary: e)
  case Nil
  then show ?case by simp
next
  case (Cons c cs)
  have one: "unat (readMark e) + 1 < 2 ^ 64" using Cons.prems(2) by simp
  have c1: "committed (commit c e)" using commit_committed [OF Cons.prems(1) one] .
  have r1: "unat (readMark (commit c e)) = unat (readMark e) + 1" using commit_readMark [OF one] .
  have b1: "unat (readMark (commit c e)) + length cs < 2 ^ 64" using r1 Cons.prems(2) by simp
  note ih = Cons.IH [OF c1 b1]
  define new where "new = map (frame (readMark e + 1)) c"
  have w1: "wal (commit c e) = wal e @ new"
    unfolding new_def by (rule commit_wal)
  have n1: "\<forall>f \<in> set new. commitSequence f = readMark e + 1"
    unfolding new_def by (auto simp: frame_sequence)
  obtain rest where wn: "wal (fold commit cs (commit c e)) = wal (commit c e) @ rest"
    and nr: "\<forall>f \<in> set rest. readMark (commit c e) < commitSequence f"
    using ih by (metis append_take_drop_id)
  have lt: "readMark e < readMark (commit c e)"
    using r1 by (simp add: word_less_nat_alt)
  have rm: "readMark (commit c e) = readMark e + 1" by (rule commit_mark)
  have "\<forall>f \<in> set (new @ rest). readMark e < commitSequence f"
    using n1 nr lt rm by auto
  moreover have "wal (fold commit (c # cs) e) = wal e @ (new @ rest)"
    using w1 wn by simp
  ultimately show ?case using ih r1 by simp
qed

lemma lookup_snoc:
  "frameIndex_lookup (log @ [f]) p S =
     (if pageNumber f = p \<and> commitSequence f \<le> S then Some f else frameIndex_lookup log p S)"
  by (simp add: frameIndex_lookup_def)

lemma lookup_append_later:
  assumes "\<forall>f \<in> set new. S < commitSequence f"
  shows "frameIndex_lookup (log @ new) p S = frameIndex_lookup log p S"
  using assms
proof (induction new rule: rev_induct)
  case Nil
  then show ?case by simp
next
  case (snoc f new)
  have "\<not> commitSequence f \<le> S" using snoc.prems by (simp add: not_le)
  then have "frameIndex_lookup ((log @ new) @ [f]) p S = frameIndex_lookup (log @ new) p S"
    by (simp only: lookup_snoc) simp
  then show ?case using snoc by simp
qed

lemma lookup_sound:
  "frameIndex_lookup log p S = Some f \<Longrightarrow> f \<in> set log \<and> pageNumber f = p \<and> commitSequence f \<le> S"
  by (induction log rule: rev_induct) (auto simp: lookup_snoc frameIndex_lookup_def split: if_splits)

lemma lookup_none:
  "frameIndex_lookup log p S = None \<longleftrightarrow> (\<forall>g \<in> set log. \<not> (pageNumber g = p \<and> commitSequence g \<le> S))"
  by (auto simp: frameIndex_lookup_def find_None_iff)

lemma lookup_newest:
  assumes "sorted (map commitSequence log)" and "frameIndex_lookup log p S = Some f"
    and "g \<in> set log" and "pageNumber g = p" and "commitSequence g \<le> S"
  shows "commitSequence g \<le> commitSequence f"
  using assms
proof (induction log rule: rev_induct)
  case Nil
  then show ?case by simp
next
  case (snoc x log)
  have srt: "sorted (map commitSequence log)" and top: "\<forall>y \<in> set log. commitSequence y \<le> commitSequence x"
    using snoc.prems(1) by (auto simp: sorted_append)
  show ?case
  proof (cases "pageNumber x = p \<and> commitSequence x \<le> S")
    case True
    then have "f = x" using snoc.prems(2) by (simp add: lookup_snoc)
    then show ?thesis using snoc.prems(3) top by auto
  next
    case False
    then have "frameIndex_lookup log p S = Some f"
      using snoc.prems(2) by (auto simp: lookup_snoc split: if_splits)
    moreover have "g \<in> set log" using snoc.prems(3,4,5) False by auto
    ultimately show ?thesis using snoc.IH srt snoc.prems(4,5) by blast
  qed
qed

lemma empty_committed: "committed (empty_engine pages)"
  by (simp add: committed_def empty_engine_def)

lemma commits_base: "base (fold commit cs e) = base e"
  by (induction cs arbitrary: e) (simp_all add: commit_def Let_def)

lemma capture_boundary: "boundary (fst (capture mark r)) = mark"
  by (simp add: capture_def Let_def)

subsection \<open>Reference counts\<close>

lemma empty_accounted: "accounted empty_registry"
  by (simp add: accounted_def empty_registry_def)

lemma capture_accounted:
  assumes "accounted r"
  shows "accounted (snd (capture mark r))"
proof -
  define s where "s = \<lparr>handle = next_handle r, boundary = mark\<rparr>"
  have fin: "finite (live r)" and bound: "\<forall>t \<in> live r. handle t < next_handle r"
    and cnt: "\<And>b. refcount r b = card {t \<in> live r. boundary t = b}"
    using assms unfolding accounted_def by auto
  have new: "s \<notin> live r" using bound by (auto simp: s_def)
  have r': "snd (capture mark r) =
      r\<lparr>live := insert s (live r), refcount := (refcount r)(mark := refcount r mark + 1),
        next_handle := next_handle r + 1\<rparr>"
    by (simp add: capture_def Let_def s_def)
  have "refcount (snd (capture mark r)) b = card {t \<in> live (snd (capture mark r)). boundary t = b}" for b
  proof (cases "b = mark")
    case True
    have "{t \<in> insert s (live r). boundary t = mark} = insert s {t \<in> live r. boundary t = mark}"
      by (auto simp: s_def)
    moreover have "s \<notin> {t \<in> live r. boundary t = mark}" using new by simp
    moreover have "finite {t \<in> live r. boundary t = mark}" using fin by simp
    ultimately have "card {t \<in> insert s (live r). boundary t = mark} = Suc (card {t \<in> live r. boundary t = mark})"
      by simp
    then show ?thesis using True cnt [of mark] by (simp add: r')
  next
    case False
    have "{t \<in> insert s (live r). boundary t = b} = {t \<in> live r. boundary t = b}"
      using False by (auto simp: s_def)
    then show ?thesis using False cnt [of b] by (simp add: r')
  qed
  moreover have "finite (live (snd (capture mark r)))" using fin by (simp add: r')
  moreover have "\<forall>t \<in> live (snd (capture mark r)). handle t < next_handle (snd (capture mark r))"
    using bound by (auto simp: r' s_def less_Suc_eq)
  ultimately show ?thesis unfolding accounted_def by blast
qed

lemma release_Inr:
  "release s r = Inr r' \<longleftrightarrow>
     s \<in> live r \<and> r' = r\<lparr>live := live r - {s},
                          refcount := (refcount r)(boundary s := refcount r (boundary s) - 1)\<rparr>"
  by (auto simp: release_def)

lemma release_Inl: "release s r = Inl e \<longleftrightarrow> s \<notin> live r \<and> e = InvalidToken"
  by (auto simp: release_def)

lemma release_accounted:
  assumes "accounted r" and "release s r = Inr r'"
  shows "accounted r'" and "0 < refcount r (boundary s)"
proof -
  have fin: "finite (live r)" and bound: "\<forall>t \<in> live r. handle t < next_handle r"
    and cnt: "\<And>b. refcount r b = card {t \<in> live r. boundary t = b}"
    using assms(1) unfolding accounted_def by auto
  have mem: "s \<in> live r"
    and r': "r' = r\<lparr>live := live r - {s},
                    refcount := (refcount r)(boundary s := refcount r (boundary s) - 1)\<rparr>"
    using assms(2) by (simp_all add: release_Inr)
  have "s \<in> {t \<in> live r. boundary t = boundary s}" using mem by simp
  moreover have f: "finite {t \<in> live r. boundary t = boundary s}" using fin by simp
  ultimately have "0 < card {t \<in> live r. boundary t = boundary s}"
    using card_gt_0_iff by blast
  then show "0 < refcount r (boundary s)" using cnt by simp
  have "refcount r' b = card {t \<in> live r'. boundary t = b}" for b
  proof (cases "b = boundary s")
    case True
    have "{t \<in> live r - {s}. boundary t = boundary s} = {t \<in> live r. boundary t = boundary s} - {s}"
      by auto
    then have "card {t \<in> live r - {s}. boundary t = boundary s} =
               card {t \<in> live r. boundary t = boundary s} - 1"
      using mem f by simp
    then show ?thesis using True cnt [of "boundary s"] by (simp add: r')
  next
    case False
    have "{t \<in> live r - {s}. boundary t = b} = {t \<in> live r. boundary t = b}"
      using False by auto
    then show ?thesis using False cnt [of b] by (simp add: r')
  qed
  moreover have "finite (live r')" using fin by (simp add: r')
  moreover have "\<forall>t \<in> live r'. handle t < next_handle r'" using bound by (simp add: r')
  ultimately show "accounted r'" unfolding accounted_def by blast
qed

lemma apply_op_accounted: "accounted r \<Longrightarrow> accounted (apply_op x r)"
  by (cases x) (auto simp: capture_accounted release_accounted(1) split: sum.splits)

lemma run_accounted: "accounted r \<Longrightarrow> accounted (fold apply_op ops r)"
  by (induction ops arbitrary: r) (simp_all add: apply_op_accounted)

lemma apply_op_retired: "retired s r \<Longrightarrow> retired s (apply_op x r)"
  by (cases x) (auto simp: retired_def capture_def Let_def release_Inr split: sum.splits)

lemma run_retired: "retired s r \<Longrightarrow> retired s (fold apply_op ops r)"
  by (induction ops arbitrary: r) (simp_all add: apply_op_retired)


subsection \<open>The claims about the engine\<close>

text \<open>
  Claim C5. Take any sequence of commits on an empty log, fewer than \<open>2 ^ 64\<close> so that the
  counter does not wrap, and a snapshot captured after the first \<open>k\<close> of them, that is before
  commit \<open>k + 1\<close>. After all the commits, a lookup and a read of any page at the snapshot's
  boundary \<open>S\<close> give what they gave when the snapshot was captured; the log at capture is
  a prefix of the final log, and every frame appended since has a sequence above \<open>S\<close>. The
  frame a lookup returns is then a frame of that page from before the capture, with sequence at
  most \<open>S\<close> and the greatest such sequence in the whole log; it returns none only when the log has
  no frame of that page with sequence at most \<open>S\<close>.
\<close>

theorem snapshot_isolation:
  assumes "length cs < 2 ^ 64" and "k \<le> length cs"
  shows "let e_k = fold commit (take k cs) (empty_engine pages);
             e_n = fold commit cs (empty_engine pages);
             S = boundary (fst (capture (readMark e_k) r))
         in frameIndex_lookup (wal e_n) p S = frameIndex_lookup (wal e_k) p S
          \<and> read e_n p S = read e_k p S
          \<and> take (length (wal e_k)) (wal e_n) = wal e_k
          \<and> (\<forall>f \<in> set (drop (length (wal e_k)) (wal e_n)). S < commitSequence f)
          \<and> (case frameIndex_lookup (wal e_n) p S of
               None \<Rightarrow> \<forall>g \<in> set (wal e_n). \<not> (pageNumber g = p \<and> commitSequence g \<le> S)
             | Some f \<Rightarrow>
                 f \<in> set (wal e_k) \<and> pageNumber f = p \<and> commitSequence f \<le> S
               \<and> (\<forall>g \<in> set (wal e_n). pageNumber g = p \<and> commitSequence g \<le> S
                     \<longrightarrow> commitSequence g \<le> commitSequence f))"
proof -
  define e_k where "e_k = fold commit (take k cs) (empty_engine pages)"
  define e_n where "e_n = fold commit cs (empty_engine pages)"
  define S where "S = boundary (fst (capture (readMark e_k) r))"
  have S: "S = readMark e_k" by (simp add: S_def capture_boundary)
  have b0: "unat (readMark (empty_engine pages)) + length (take k cs) < 2 ^ 64"
    using assms by (simp add: empty_engine_def)
  have k: "committed e_k" "unat (readMark e_k) = k"
    using commits_step [OF empty_committed b0] assms(2)
    by (simp_all add: e_k_def empty_engine_def min_def)
  have "fold commit (take k cs @ drop k cs) (empty_engine pages) =
          fold commit (drop k cs) (fold commit (take k cs) (empty_engine pages))"
    by (simp only: fold_append comp_apply)
  then have split: "e_n = fold commit (drop k cs) e_k"
    unfolding e_n_def e_k_def by simp
  have b1: "unat (readMark e_k) + length (drop k cs) < 2 ^ 64"
    using assms k(2) by simp
  have n: "committed e_n" "take (length (wal e_k)) (wal e_n) = wal e_k"
    "\<forall>f \<in> set (drop (length (wal e_k)) (wal e_n)). S < commitSequence f"
    using commits_step [OF k(1) b1] unfolding split S by simp_all
  have wal_n: "wal e_n = wal e_k @ drop (length (wal e_k)) (wal e_n)"
    using n(2) by (metis append_take_drop_id)
  have same: "frameIndex_lookup (wal e_n) p S = frameIndex_lookup (wal e_k) p S"
    using lookup_append_later [OF n(3), of "wal e_k" p] wal_n by simp
  have be: "base e_n = base e_k"
    unfolding split by (rule commits_base)
  have rd: "read e_n p S = read e_k p S"
    by (simp only: read_def same be)
  have res: "case frameIndex_lookup (wal e_n) p S of
               None \<Rightarrow> \<forall>g \<in> set (wal e_n). \<not> (pageNumber g = p \<and> commitSequence g \<le> S)
             | Some f \<Rightarrow>
                 f \<in> set (wal e_k) \<and> pageNumber f = p \<and> commitSequence f \<le> S
               \<and> (\<forall>g \<in> set (wal e_n). pageNumber g = p \<and> commitSequence g \<le> S
                     \<longrightarrow> commitSequence g \<le> commitSequence f)"
  proof (cases "frameIndex_lookup (wal e_n) p S")
    case None
    then show ?thesis using lookup_none [of "wal e_n" p S] by simp
  next
    case (Some f)
    have "f \<in> set (wal e_k) \<and> pageNumber f = p \<and> commitSequence f \<le> S"
      using lookup_sound [of "wal e_k" p S f] Some same by simp
    moreover have "\<forall>g \<in> set (wal e_n). pageNumber g = p \<and> commitSequence g \<le> S
                     \<longrightarrow> commitSequence g \<le> commitSequence f"
      using lookup_newest [of "wal e_n" p S f] n(1) Some unfolding committed_def by blast
    ultimately show ?thesis using Some by simp
  qed
  show ?thesis
    using same rd n(2) n(3) res
    unfolding Let_def e_k_def [symmetric] e_n_def [symmetric] S_def [symmetric] by blast
qed

theorem snapshot_isolation_witness:
  "length two_commits < 2 ^ 64 \<and> Suc 0 \<le> length two_commits
   \<and> boundary (fst (capture (readMark (fold commit (take (Suc 0) two_commits) (empty_engine Map.empty)))
        empty_registry)) = 1
   \<and> map commitSequence (wal (fold commit two_commits (empty_engine Map.empty))) = [1, 2]
   \<and> frameIndex_lookup (wal (fold commit two_commits (empty_engine Map.empty))) 1 1
       = Some \<lparr>pageNumber = 1, commitSequence = 1, pageBytes = [65]\<rparr>
   \<and> read (fold commit two_commits (empty_engine Map.empty)) 1 1 = Inr [65]
   \<and> read (fold commit two_commits (empty_engine Map.empty)) 1 2 = Inr [66]"
proof -
  have h: "length two_commits < 2 ^ 64" "Suc 0 \<le> length two_commits"
    by (simp_all add: two_commits_def)
  have S: "boundary (fst (capture (readMark (fold commit (take (Suc 0) two_commits)
             (empty_engine Map.empty))) empty_registry)) = 1"
    by (simp add: two_commits_def capture_boundary commit_def empty_engine_def)
  have before: "frameIndex_lookup (wal (fold commit (take (Suc 0) two_commits) (empty_engine Map.empty))) 1 1
      = Some \<lparr>pageNumber = 1, commitSequence = 1, pageBytes = [65]\<rparr>"
    by (simp add: two_commits_def commit_def empty_engine_def appendFrames_def frameIndex_lookup_def)
  have rbefore: "read (fold commit (take (Suc 0) two_commits) (empty_engine Map.empty)) 1 1 = Inr [65]"
    using before by (simp add: read_def)
  have log: "map commitSequence (wal (fold commit two_commits (empty_engine Map.empty))) = [1, 2]"
    by (simp add: two_commits_def commit_def empty_engine_def appendFrames_def)
  have now: "read (fold commit two_commits (empty_engine Map.empty)) 1 2 = Inr [66]"
    by (simp add: two_commits_def commit_def empty_engine_def appendFrames_def
        frameIndex_lookup_def read_def)
  have "frameIndex_lookup (wal (fold commit two_commits (empty_engine Map.empty))) 1 1
          = frameIndex_lookup (wal (fold commit (take (Suc 0) two_commits) (empty_engine Map.empty))) 1 1
      \<and> read (fold commit two_commits (empty_engine Map.empty)) 1 1
          = read (fold commit (take (Suc 0) two_commits) (empty_engine Map.empty)) 1 1"
    using snapshot_isolation [OF h, of Map.empty empty_registry 1]
    unfolding Let_def S by blast
  then show ?thesis
    using h S before rbefore log now by simp
qed

text \<open>
  Claim C7. \<open>compare s1 s2\<close> is \<open>Before\<close>, \<open>Same\<close> or \<open>After\<close> exactly as the boundary of
  \<open>s1\<close> is less than, equal to or greater than the boundary of \<open>s2\<close>, as 64-bit unsigned
  numbers. The order it gives is reflexive, antisymmetric up to \<open>Same\<close>, transitive and
  total, and it follows the commits: a snapshot captured before a run of commits that does
  not wrap the counter compares \<open>Before\<close> a snapshot captured after it, and \<open>Same\<close> when the
  run is empty.
\<close>

theorem compare_orders_by_boundary:
  "(compare s1 s2 = Before \<longleftrightarrow> boundary s1 < boundary s2)
 \<and> (compare s1 s2 = Same \<longleftrightarrow> boundary s1 = boundary s2)
 \<and> (compare s1 s2 = After \<longleftrightarrow> boundary s2 < boundary s1)
 \<and> compare s1 s1 = Same
 \<and> (compare s1 s2 = Before \<longleftrightarrow> compare s2 s1 = After)
 \<and> (compare s1 s2 = Same \<longleftrightarrow> compare s2 s1 = Same)
 \<and> (compare s1 s2 \<noteq> After \<and> compare s2 s3 \<noteq> After \<longrightarrow> compare s1 s3 \<noteq> After)
 \<and> (compare s1 s2 = Before \<and> compare s2 s3 \<noteq> After \<longrightarrow> compare s1 s3 = Before)
 \<and> (unat (readMark e) + length cs < 2 ^ 64 \<longrightarrow>
       compare (fst (capture (readMark e) r)) (fst (capture (readMark (fold commit cs e)) r'))
         = (if cs = [] then Same else Before))"
proof -
  have ord: "(compare s1 s2 = Before \<longleftrightarrow> boundary s1 < boundary s2)
 \<and> (compare s1 s2 = Same \<longleftrightarrow> boundary s1 = boundary s2)
 \<and> (compare s1 s2 = After \<longleftrightarrow> boundary s2 < boundary s1)
 \<and> compare s1 s1 = Same
 \<and> (compare s1 s2 = Before \<longleftrightarrow> compare s2 s1 = After)
 \<and> (compare s1 s2 = Same \<longleftrightarrow> compare s2 s1 = Same)
 \<and> (compare s1 s2 \<noteq> After \<and> compare s2 s3 \<noteq> After \<longrightarrow> compare s1 s3 \<noteq> After)
 \<and> (compare s1 s2 = Before \<and> compare s2 s3 \<noteq> After \<longrightarrow> compare s1 s3 = Before)"
    by (auto simp: compare_def)
  have "compare (fst (capture (readMark e) r)) (fst (capture (readMark (fold commit cs e)) r'))
         = (if cs = [] then Same else Before)" if b: "unat (readMark e) + length cs < 2 ^ 64"
  proof -
    have "unat (readMark (fold commit cs e)) = unat (readMark e) + length cs"
      using commits_readMark [OF b] .
    then show ?thesis
      by (auto simp: compare_def capture_boundary word_less_nat_alt word_unat_eq_iff)
  qed
  with ord show ?thesis by blast
qed

theorem compare_orders_by_boundary_witness:
  "compare first_snapshot \<lparr>handle = 5, boundary = 2\<rparr> = Before
   \<and> compare \<lparr>handle = 5, boundary = 2\<rparr> \<lparr>handle = 6, boundary = 2\<rparr> \<noteq> After
   \<and> compare first_snapshot \<lparr>handle = 6, boundary = 2\<rparr> = Before
   \<and> unat (readMark (empty_engine Map.empty)) + length two_commits < 2 ^ 64
   \<and> compare (fst (capture (readMark (empty_engine Map.empty)) empty_registry))
        (fst (capture (readMark (fold commit two_commits (empty_engine Map.empty))) empty_registry))
       = Before"
proof -
  have a: "compare first_snapshot \<lparr>handle = 5, boundary = 2\<rparr> = Before"
    by (simp add: compare_def first_snapshot_def)
  have b: "compare \<lparr>handle = 5, boundary = 2\<rparr> \<lparr>handle = 6, boundary = 2\<rparr> \<noteq> After"
    by (simp add: compare_def)
  have c: "unat (readMark (empty_engine Map.empty)) + length two_commits < 2 ^ 64"
    by (simp add: empty_engine_def two_commits_def)
  have d: "two_commits \<noteq> []"
    by (simp add: two_commits_def)
  show ?thesis
    using a b c d
      compare_orders_by_boundary [where ?s1.0 = first_snapshot
        and ?s2.0 = "\<lparr>handle = 5, boundary = 2\<rparr>" and ?s3.0 = "\<lparr>handle = 6, boundary = 2\<rparr>"
        and e = "empty_engine Map.empty" and cs = two_commits
        and r = empty_registry and r' = empty_registry]
    by simp
qed

text \<open>
  Claim C8. In a registry reached by any captures and releases, the reference count of every
  boundary is the number of live snapshots at it. When a release of \<open>s\<close> succeeds there, the
  count of its boundary was positive and goes down by one; after that, and after any further
  captures and releases, releasing \<open>s\<close> again is rejected with the error \<open>InvalidToken\<close>, the
  registry stays as it was, and the counts still equal the numbers of live snapshots.
\<close>

theorem release_twice_rejected:
  assumes "release s (fold apply_op ops1 empty_registry) = Inr r2"
  shows "(\<forall>b. refcount (fold apply_op ops1 empty_registry) b =
               card {t \<in> live (fold apply_op ops1 empty_registry). boundary t = b})
       \<and> 0 < refcount (fold apply_op ops1 empty_registry) (boundary s)
       \<and> refcount r2 = (refcount (fold apply_op ops1 empty_registry))
            (boundary s := refcount (fold apply_op ops1 empty_registry) (boundary s) - 1)
       \<and> release s (fold apply_op ops2 r2) = Inl InvalidToken
       \<and> apply_op (Release s) (fold apply_op ops2 r2) = fold apply_op ops2 r2
       \<and> (\<forall>b. refcount (fold apply_op ops2 r2) b =
               card {t \<in> live (fold apply_op ops2 r2). boundary t = b})"
proof -
  define r1 where "r1 = fold apply_op ops1 empty_registry"
  have a1: "accounted r1" unfolding r1_def using run_accounted [OF empty_accounted] .
  have rel: "release s r1 = Inr r2" using assms by (simp add: r1_def)
  have a2: "accounted r2" and pos: "0 < refcount r1 (boundary s)"
    using release_accounted [OF a1 rel] by simp_all
  have mem: "s \<in> live r1"
    and r2: "r2 = r1\<lparr>live := live r1 - {s},
                    refcount := (refcount r1)(boundary s := refcount r1 (boundary s) - 1)\<rparr>"
    using rel by (simp_all add: release_Inr)
  have "handle s < next_handle r1" using a1 mem unfolding accounted_def by blast
  then have "retired s r2" by (simp add: retired_def r2)
  then have gone: "s \<notin> live (fold apply_op ops2 r2)"
    using run_retired [of s r2 ops2] by (simp add: retired_def)
  have rej: "release s (fold apply_op ops2 r2) = Inl InvalidToken"
    using gone by (simp add: release_def)
  have a3: "accounted (fold apply_op ops2 r2)" using run_accounted [OF a2] .
  have "\<forall>b. refcount r1 b = card {t \<in> live r1. boundary t = b}"
    using a1 unfolding accounted_def by blast
  moreover have "refcount r2 = (refcount r1)(boundary s := refcount r1 (boundary s) - 1)"
    by (simp add: r2)
  moreover have "apply_op (Release s) (fold apply_op ops2 r2) = fold apply_op ops2 r2"
    by (simp add: rej)
  moreover have "\<forall>b. refcount (fold apply_op ops2 r2) b =
               card {t \<in> live (fold apply_op ops2 r2). boundary t = b}"
    using a3 unfolding accounted_def by blast
  ultimately show ?thesis using pos rej unfolding r1_def by blast
qed

theorem release_twice_rejected_witness:
  "release first_snapshot (fold apply_op [Capture 1, Capture 1] empty_registry)
     = Inr \<lparr>live = {second_snapshot}, refcount = (\<lambda>_. 0)(1 := 1), next_handle = 2\<rparr>
   \<and> refcount (fold apply_op [Capture 1, Capture 1] empty_registry) 1 = 2
   \<and> release first_snapshot
       (fold apply_op [Capture 2]
          \<lparr>live = {second_snapshot}, refcount = (\<lambda>_. 0)(1 := 1), next_handle = 2\<rparr>)
     = Inl InvalidToken"
proof -
  have ne: "first_snapshot \<noteq> second_snapshot"
    by (simp add: first_snapshot_def second_snapshot_def)
  have r1: "fold apply_op [Capture 1, Capture 1] empty_registry
      = \<lparr>live = {second_snapshot, first_snapshot}, refcount = (\<lambda>_. 0)(1 := 2), next_handle = 2\<rparr>"
    by (simp add: capture_def empty_registry_def first_snapshot_def second_snapshot_def Let_def
        numeral_2_eq_2)
  have rel: "release first_snapshot (fold apply_op [Capture 1, Capture 1] empty_registry)
     = Inr \<lparr>live = {second_snapshot}, refcount = (\<lambda>_. 0)(1 := 1), next_handle = 2\<rparr>"
    unfolding r1 using ne by (auto simp: release_def first_snapshot_def)
  have cnt: "refcount (fold apply_op [Capture 1, Capture 1] empty_registry) 1 = 2"
    unfolding r1 by simp
  show ?thesis
    using rel cnt release_twice_rejected [OF rel, of "[Capture 2]"] by blast
qed

end
